theory Spec2Isabelle
  imports Complex_Main
begin

section \<open>The Cauchy problem solver of \<^verbatim>\<open>cpp/ode_solver.hpp\<close>\<close>

text \<open>
  The header defines a sample type \<^verbatim>\<open>State\<close>, a class \<^verbatim>\<open>ODESolver\<close> holding the right-hand
  side \<open>f\<close> of \<open>y'' = f(x, y, y')\<close> and the initial condition, three fixed-step integrators
  and a Runge error estimate.

  Modelling conventions.
  \<^item> A C++ \<^verbatim>\<open>double\<close> is a \<^typ>\<open>real\<close>: all statements below are about exact real
    arithmetic, with the operations in the order the source writes them. Rounding,
    infinities and NaN are outside the model.
  \<^item> A \<^verbatim>\<open>std::vector\<close> is a list; \<^verbatim>\<open>push_back\<close> appends at the end. Storage is unbounded,
    and so is \<^verbatim>\<open>size_t\<close> upwards.
  \<^item> A call of a solve method has one of three outcomes: it never ends (\<open>None\<close>, the
    \<^verbatim>\<open>while\<close> loops are partial functions into \<open>option\<close>), it ends at the capacity request
    without a trajectory (\<open>Some (Inl e)\<close>), or it returns a trajectory (\<open>Some (Inr traj)\<close>).
\<close>

subsection \<open>Data\<close>

record State =
  x :: real
  y :: real
  dy :: real

type_synonym SecondOrderODE = "real \<Rightarrow> real \<Rightarrow> real \<Rightarrow> real"

record ODESolver =
  m_ode :: SecondOrderODE
  m_initial_state :: State

text \<open>The constructor \<^verbatim>\<open>ODESolver(ode, x0, y0, dy0)\<close>.\<close>

definition new_ODESolver :: "SecondOrderODE \<Rightarrow> real \<Rightarrow> real \<Rightarrow> real \<Rightarrow> ODESolver" where
  "new_ODESolver ode x0 y0 dy0 =
     \<lparr>m_ode = ode, m_initial_state = \<lparr>x = x0, y = y0, dy = dy0\<rparr>\<rparr>"

subsection \<open>The system wrapper and the step methods\<close>

definition system :: "ODESolver \<Rightarrow> State \<Rightarrow> real \<times> real" where
  "system S state = (dy state, m_ode S (x state) (y state) (dy state))"

definition rk4Step :: "ODESolver \<Rightarrow> State \<Rightarrow> real \<Rightarrow> State" where
  "rk4Step S current h =
     (let (k1_dy, k1_d2y) = system S current;
          k2_state = \<lparr>x = x current + h / 2,
                      y = y current + h / 2 * k1_dy,
                      dy = dy current + h / 2 * k1_d2y\<rparr>;
          (k2_dy, k2_d2y) = system S k2_state;
          k3_state = \<lparr>x = x current + h / 2,
                      y = y current + h / 2 * k2_dy,
                      dy = dy current + h / 2 * k2_d2y\<rparr>;
          (k3_dy, k3_d2y) = system S k3_state;
          k4_state = \<lparr>x = x current + h,
                      y = y current + h * k3_dy,
                      dy = dy current + h * k3_d2y\<rparr>;
          (k4_dy, k4_d2y) = system S k4_state
      in \<lparr>x = x current + h,
          y = y current + h / 6 * (k1_dy + 2 * k2_dy + 2 * k3_dy + k4_dy),
          dy = dy current + h / 6 * (k1_d2y + 2 * k2_d2y + 2 * k3_d2y + k4_d2y)\<rparr>)"

definition eulerStep :: "ODESolver \<Rightarrow> State \<Rightarrow> real \<Rightarrow> State" where
  "eulerStep S current h =
     (let (dy', d2y) = system S current
      in \<lparr>x = x current + h,
          y = y current + h * dy',
          dy = dy current + h * d2y\<rparr>)"

text \<open>
  \<^verbatim>\<open>adams3Step\<close> reads \<^verbatim>\<open>prev_states.back()\<close>, \<^verbatim>\<open>prev_states[size - 2]\<close> and
  \<^verbatim>\<open>prev_states[size - 3]\<close>. With fewer than three elements one of these reads lies outside
  the vector (the \<^verbatim>\<open>size_t\<close> subtraction wraps around), which the model reports as \<open>None\<close>.
\<close>

definition adams3Step :: "ODESolver \<Rightarrow> State list \<Rightarrow> real \<Rightarrow> State option" where
  "adams3Step S prev_states h =
     (if length prev_states < 3 then None
      else
        let current = last prev_states;
            prev1 = prev_states ! (length prev_states - 2);
            prev2 = prev_states ! (length prev_states - 3);
            (f0_dy, f0_d2y) = system S current;
            (f1_dy, f1_d2y) = system S prev1;
            (f2_dy, f2_d2y) = system S prev2
        in Some \<lparr>x = x current + h,
                 y = y current + h * (23 * f0_dy - 16 * f1_dy + 5 * f2_dy) / 12,
                 dy = dy current + h * (23 * f0_d2y - 16 * f1_d2y + 5 * f2_d2y) / 12\<rparr>)"

subsection \<open>The capacity request\<close>

text \<open>
  Each solve method opens with
  \<^verbatim>\<open>solution.reserve(static_cast<size_t>((x_end - m_initial_state.x) / h) + 1)\<close>.
  The conversion of a \<^verbatim>\<open>double\<close> to \<^verbatim>\<open>size_t\<close> discards the fractional part and is undefined
  when the result is not a value of \<^verbatim>\<open>size_t\<close>: for a quotient \<open>q \<le> - 1\<close>, and for the
  infinite or NaN quotient of \<open>h = 0\<close>. The call has no defined result then; on the usual
  implementations the request exceeds \<^verbatim>\<open>max_size()\<close> and \<^verbatim>\<open>reserve\<close> throws
  \<^verbatim>\<open>std::length_error\<close> before anything is pushed. The model ends the call there with the
  error \<open>CapacityUndefined\<close>. A defined request only sets the capacity of the still empty
  vector, never its contents.
\<close>

datatype error = CapacityUndefined

definition reserve_request :: "real \<Rightarrow> real \<Rightarrow> real \<Rightarrow> nat option" where
  "reserve_request x0 h x_end =
     (let q = (x_end - x0) / h
      in if h = 0 \<or> q \<le> - 1 then None
         else Some (nat (if q < 0 then \<lceil>q\<rceil> else \<lfloor>q\<rfloor>) + 1))"

subsection \<open>The solve methods\<close>

text \<open>
  The loop of \<^verbatim>\<open>solveRK4\<close>, on the local variables \<^verbatim>\<open>current\<close> and \<^verbatim>\<open>solution\<close>.
\<close>

partial_function (option) solveRK4_loop ::
  "ODESolver \<Rightarrow> real \<Rightarrow> real \<Rightarrow> State \<Rightarrow> State list \<Rightarrow> State list option" where
  "solveRK4_loop S h x_end current solution =
     (if x current < x_end - h / 2
      then (let current' = rk4Step S current h
            in solveRK4_loop S h x_end current' (solution @ [current']))
      else Some solution)"

definition solveRK4 :: "ODESolver \<Rightarrow> real \<Rightarrow> real \<Rightarrow> (error + State list) option" where
  "solveRK4 S h x_end =
     (case reserve_request (x (m_initial_state S)) h x_end of
        None \<Rightarrow> Some (Inl CapacityUndefined)
      | Some capacity \<Rightarrow>
          (let current = m_initial_state S
           in map_option Inr (solveRK4_loop S h x_end current [current])))"

partial_function (option) solveEuler_loop ::
  "ODESolver \<Rightarrow> real \<Rightarrow> real \<Rightarrow> State \<Rightarrow> State list \<Rightarrow> State list option" where
  "solveEuler_loop S h x_end current solution =
     (if x current < x_end - h / 2
      then (let current' = eulerStep S current h
            in solveEuler_loop S h x_end current' (solution @ [current']))
      else Some solution)"

definition solveEuler :: "ODESolver \<Rightarrow> real \<Rightarrow> real \<Rightarrow> (error + State list) option" where
  "solveEuler S h x_end =
     (case reserve_request (x (m_initial_state S)) h x_end of
        None \<Rightarrow> Some (Inl CapacityUndefined)
      | Some capacity \<Rightarrow>
          (let current = m_initial_state S
           in map_option Inr (solveEuler_loop S h x_end current [current])))"

text \<open>
  \<^verbatim>\<open>solveAdams3\<close>: the \<^verbatim>\<open>for\<close> loop over \<open>i = 0, 1, 2\<close> pushes the initial state and then
  twice an RK4 step from \<^verbatim>\<open>solution.back()\<close>; the \<^verbatim>\<open>while\<close> loop follows. A read outside
  the vector in \<^verbatim>\<open>adams3Step\<close> would leave the call without a result; the vector holds
  three elements when the \<^verbatim>\<open>while\<close> loop is entered, so this does not happen (lemmas
  \<open>adams3Step_defined\<close> and \<open>solveAdams3_total\<close> below).
\<close>

function solveAdams3_bootstrap :: "ODESolver \<Rightarrow> real \<Rightarrow> nat \<Rightarrow> State list \<Rightarrow> State list" where
  "solveAdams3_bootstrap S h i solution =
     (if i < 3
      then solveAdams3_bootstrap S h (i + 1)
             (if i = 0 then solution @ [m_initial_state S]
              else solution @ [rk4Step S (last solution) h])
      else solution)"
  by pat_completeness auto
termination
  by (relation "measure (\<lambda>(S, h, i, solution). 3 - i)") auto

partial_function (option) solveAdams3_loop ::
  "ODESolver \<Rightarrow> real \<Rightarrow> real \<Rightarrow> State list \<Rightarrow> State list option" where
  "solveAdams3_loop S h x_end solution =
     (if x (last solution) < x_end - h / 2
      then (case adams3Step S solution h of
              None \<Rightarrow> None
            | Some next \<Rightarrow> solveAdams3_loop S h x_end (solution @ [next]))
      else Some solution)"

definition solveAdams3 :: "ODESolver \<Rightarrow> real \<Rightarrow> real \<Rightarrow> (error + State list) option" where
  "solveAdams3 S h x_end =
     (case reserve_request (x (m_initial_state S)) h x_end of
        None \<Rightarrow> Some (Inl CapacityUndefined)
      | Some capacity \<Rightarrow>
          map_option Inr (solveAdams3_loop S h x_end (solveAdams3_bootstrap S h 0 [])))"

subsection \<open>The Runge error estimate\<close>

text \<open>
  The \<^verbatim>\<open>for\<close> loop of \<^verbatim>\<open>calculateRungeError\<close> on its variables \<^verbatim>\<open>i\<close>, \<^verbatim>\<open>coarse_idx\<close> and
  \<^verbatim>\<open>errors\<close>; \<^verbatim>\<open>std::pow(2.0, -p)\<close> is the real power \<open>2 powr (- p)\<close>.
\<close>

function calculateRungeError_loop ::
  "State list \<Rightarrow> State list \<Rightarrow> real \<Rightarrow> nat \<Rightarrow> nat \<Rightarrow> real list \<Rightarrow> real list" where
  "calculateRungeError_loop fine coarse p i coarse_idx errors =
     (if i < length fine
      then (if coarse_idx \<ge> length coarse then errors
            else (let error = \<bar>y (fine ! i) - y (coarse ! coarse_idx)\<bar> / (1 - 2 powr (- p))
                  in calculateRungeError_loop fine coarse p (i + 2) (coarse_idx + 1)
                       (errors @ [error])))
      else errors)"
  by pat_completeness auto
termination
  by (relation "measure (\<lambda>(fine, coarse, p, i, coarse_idx, errors). length fine - i)") auto

definition calculateRungeError :: "State list \<Rightarrow> State list \<Rightarrow> real \<Rightarrow> real list" where
  "calculateRungeError fine coarse p = calculateRungeError_loop fine coarse p 0 0 []"

subsection \<open>The methods as members of a solver object\<close>

text \<open>
  The definitions above take the stored right-hand side as a function in the mathematical
  sense. The class stores it in a \<^verbatim>\<open>std::function\<close>, which holds a callable by value, and
  a callable may have data of its own that its call operator changes (a lambda declared
  \<^verbatim>\<open>mutable\<close>, a functor with members). The methods are moreover not \<^verbatim>\<open>const\<close>. To state
  what a call does to the object, the methods are given once more as functions from the
  object before the call to the result and the object after it. The object has the stored
  callable, as its call operator \<open>ode_call\<close> (from the callable's data and the three
  arguments to the value and the callable's data after the call) and its current data
  \<open>ode_data\<close>, and \<^verbatim>\<open>m_initial_state\<close>. Every read and every call of the bodies is threaded
  through the object in the order of the source.
\<close>

type_synonym 'd callable = "'d \<Rightarrow> real \<Rightarrow> real \<Rightarrow> real \<Rightarrow> real \<times> 'd"

record 'd ODESolver_object =
  ode_call :: "'d callable"
  ode_data :: 'd
  initial_state :: State












subsection \<open>Auxiliary notions for the statements\<close>

text \<open>
  The state \<open>s\<close> shifted by \<open>d\<close> along the slope pair \<open>k\<close>, as the description of the
  Runge-Kutta stages words it.
\<close>

definition shifted :: "State \<Rightarrow> real \<Rightarrow> real \<times> real \<Rightarrow> State" where
  "shifted s d k = \<lparr>x = x s + d, y = y s + d * fst k, dy = dy s + d * snd k\<rparr>"

text \<open>The states \<open>step s, step (step s), \<dots>\<close> that \<open>n\<close> rounds of a one-step loop append.\<close>

fun iterate_states :: "(State \<Rightarrow> State) \<Rightarrow> nat \<Rightarrow> State \<Rightarrow> State list" where
  "iterate_states step 0 s = []"
| "iterate_states step (Suc n) s = step s # iterate_states step n (step s)"

text \<open>
  The number of rounds of a loop with guard \<open>x_cur < x_end - h / 2\<close> whose abscissa grows by
  \<open>h > 0\<close> in every round.
\<close>

definition loop_count :: "real \<Rightarrow> real \<Rightarrow> real \<Rightarrow> nat" where
  "loop_count h x_end x_cur = nat \<lceil>(x_end - h / 2 - x_cur) / h\<rceil>"

text \<open>
  The test equation \<open>y'' = - y\<close> with \<open>y(0) = 0\<close>, \<open>y'(0) = 1\<close> serves as concrete input.
\<close>

definition test_ode :: SecondOrderODE where
  "test_ode t u v = - u"

definition test_solver :: ODESolver where
  "test_solver = new_ODESolver test_ode 0 0 1"

text \<open>
  A callable is stateless when a call leaves its data as they were; the solver of the
  definitions above that such an object amounts to is its \<open>pure_view\<close>. Two objects have
  the same members when they agree on the call operator and on \<^verbatim>\<open>m_initial_state\<close>.
\<close>

definition stateless :: "'d ODESolver_object \<Rightarrow> bool" where
  "stateless ob \<longleftrightarrow> (\<forall>data a b c. snd (ode_call ob data a b c) = data)"

definition pure_view :: "'d ODESolver_object \<Rightarrow> ODESolver" where
  "pure_view ob =
     \<lparr>m_ode = (\<lambda>a b c. fst (ode_call ob (ode_data ob) a b c)),
      m_initial_state = initial_state ob\<rparr>"


text \<open>
  The object built from a plain function (a callable without data), and an object whose
  callable counts its calls and returns the count:
  \<^verbatim>\<open>[n = 0.0](double, double, double) mutable { return n++; }\<close> with \<open>(x0, y0, dy0) = (0, 0, 1)\<close>.
\<close>

definition pure_call :: "SecondOrderODE \<Rightarrow> unit callable" where
  "pure_call f data a b c = (f a b c, data)"

definition object_of :: "ODESolver \<Rightarrow> unit ODESolver_object" where
  "object_of S =
     \<lparr>ode_call = pure_call (m_ode S), ode_data = (), initial_state = m_initial_state S\<rparr>"



text \<open>The unfolding equations of the loops are their code equations.\<close>

declare solveRK4_loop.simps [code]
declare solveEuler_loop.simps [code]
declare solveAdams3_loop.simps [code]

declare calculateRungeError_loop.simps [simp del]
declare solveAdams3_bootstrap.simps [simp del]

section \<open>Auxiliary lemmas\<close>

subsection \<open>Lists and counting\<close>

lemma len3: "length (ys :: 'a list) = 3 \<Longrightarrow> \<exists>c b a. ys = [c, b, a]"
  by (auto simp: numeral_3_eq_3 length_Suc_conv)

lemma last_three:
  assumes "3 \<le> length (xs :: 'a list)"
  shows "\<exists>earlier c b a. xs = earlier @ [c, b, a]"
proof -
  have "xs = take (length xs - 3) xs @ drop (length xs - 3) xs" by simp
  moreover have "length (drop (length xs - 3) xs) = 3" using assms by simp
  then obtain c b a where "drop (length xs - 3) xs = [c, b, a]"
    using len3 by blast
  ultimately show ?thesis by metis
qed

lemma ceiling_half: "nat \<lceil>real n / 2\<rceil> = (n + 1) div 2"
proof -
  have "\<exists>m. n = 2 * m \<or> n = 2 * m + 1" by presburger
  then obtain m where "n = 2 * m \<or> n = 2 * m + 1" ..
  then show ?thesis
  proof
    assume n: "n = 2 * m"
    then have "\<lceil>real n / 2\<rceil> = int m" by simp
    with n show ?thesis by simp
  next
    assume n: "n = 2 * m + 1"
    have "\<lceil>real n / 2\<rceil> = int m + 1"
      by (rule ceiling_unique) (simp_all add: n field_simps)
    with n show ?thesis by simp
  qed
qed

lemma length_iterate_states [simp]: "length (iterate_states step n s) = n"
  by (induction n arbitrary: s) simp_all

lemma nth_iterate_states:
  "i < n \<Longrightarrow> iterate_states step n s ! i = (step ^^ Suc i) s"
proof (induction n arbitrary: s i)
  case 0
  then show ?case by simp
next
  case (Suc n)
  show ?case
  proof (cases i)
    case 0
    then show ?thesis by simp
  next
    case (Suc j)
    with Suc.prems have "j < n" by simp
    from Suc.IH [OF this, of "step s"] Suc show ?thesis
      by (simp add: funpow_swap1)
  qed
qed

lemma nth_init_iterate_states:
  "i \<le> n \<Longrightarrow> (s # iterate_states step n s) ! i = (step ^^ i) s"
  by (cases i) (simp_all add: nth_iterate_states del: funpow.simps)

lemma take3_iterate_states:
  "2 \<le> n \<Longrightarrow> take 3 (s # iterate_states step n s) = [s, step s, step (step s)]"
proof -
  assume "2 \<le> n"
  then obtain m where "n = Suc (Suc m)" by (metis add_2_eq_Suc le_Suc_ex)
  then show ?thesis by (simp add: numeral_3_eq_3)
qed

subsection \<open>Abscissae\<close>

lemma x_funpow:
  fixes step :: "State \<Rightarrow> State"
  assumes "\<And>s. x (step s) = x s + h"
  shows "x ((step ^^ i) s) = x s + real i * h"
  by (induction i) (simp_all add: assms algebra_simps)

lemma iterate_xs:
  fixes step :: "State \<Rightarrow> State"
  assumes "\<And>s. x (step s) = x s + h" and "i < length (s # iterate_states step n s)"
  shows "x ((s # iterate_states step n s) ! i) = x s + real i * h"
proof -
  from assms(2) have "i \<le> n" by simp
  then show ?thesis
    by (simp only: nth_init_iterate_states x_funpow [of step h, OF assms(1)])
qed

lemma rk4Step_x [simp]: "x (rk4Step S current h) = x current + h"
  by (simp add: rk4Step_def Let_def split: prod.splits)

lemma eulerStep_x [simp]: "x (eulerStep S current h) = x current + h"
  by (simp add: eulerStep_def Let_def split: prod.splits)

lemma adams3Step_x:
  "adams3Step S sol h = Some next \<Longrightarrow> x next = x (last sol) + h"
  by (auto simp: adams3Step_def Let_def split: prod.splits if_splits)

lemma adams3Step_defined:
  "3 \<le> length sol \<Longrightarrow> \<exists>next. adams3Step S sol h = Some next"
  by (simp add: adams3Step_def Let_def split: prod.splits)

lemma adams3Step_append:
  "adams3Step S (earlier @ [prev2, prev1, current]) h =
     Some \<lparr>x = x current + h,
           y = y current + h * (23 * fst (system S current) - 16 * fst (system S prev1) + 5 * fst (system S prev2)) / 12,
           dy = dy current + h * (23 * snd (system S current) - 16 * snd (system S prev1) + 5 * snd (system S prev2)) / 12\<rparr>"
  by (simp add: adams3Step_def Let_def nth_append split: prod.splits)

subsection \<open>Counting the rounds of a loop\<close>

lemma loop_count_0:
  assumes "0 < h" "loop_count h x_end c = 0"
  shows "\<not> c < x_end - h / 2"
proof -
  from assms have "\<lceil>(x_end - h / 2 - c) / h\<rceil> \<le> 0" by (simp add: loop_count_def)
  then have "(x_end - h / 2 - c) / h \<le> 0" by (simp add: ceiling_le_iff)
  with assms(1) have "x_end - h / 2 - c \<le> 0" by (simp add: divide_le_0_iff)
  then show ?thesis by simp
qed

lemma loop_count_Suc:
  assumes "0 < h" "loop_count h x_end c = Suc n"
  shows "c < x_end - h / 2" and "loop_count h x_end (c + h) = n"
proof -
  from assms have c: "\<lceil>(x_end - h / 2 - c) / h\<rceil> = int n + 1" by (simp add: loop_count_def)
  then have "0 < (x_end - h / 2 - c) / h" by (simp add: ceiling_eq_iff)
  with assms(1) have "0 < x_end - h / 2 - c" by (simp add: zero_less_divide_iff)
  then show "c < x_end - h / 2" by simp
  have "(x_end - h / 2 - (c + h)) / h = (x_end - h / 2 - c) / h - 1"
    using assms(1) by (simp add: field_simps)
  then have "\<lceil>(x_end - h / 2 - (c + h)) / h\<rceil> = int n" using c by simp
  then show "loop_count h x_end (c + h) = n" by (simp add: loop_count_def)
qed

lemma loop_count_less:
  assumes "0 < h"
  shows "(i < loop_count h x_end c) = (c + real i * h < x_end - h / 2)"
proof -
  have "(i < loop_count h x_end c) = (int i < \<lceil>(x_end - h / 2 - c) / h\<rceil>)"
    unfolding loop_count_def by (rule zless_nat_eq_int_zless)
  also have "\<dots> = (real i < (x_end - h / 2 - c) / h)"
    by (simp add: less_ceiling_iff)
  also have "\<dots> = (real i * h < x_end - h / 2 - c)"
    using assms by (simp add: pos_less_divide_eq)
  finally show ?thesis by (simp add: algebra_simps)
qed

lemma loop_count_int:
  "int (loop_count h x_end c) = max 0 \<lceil>(x_end - h / 2 - c) / h\<rceil>"
  by (simp add: loop_count_def)

lemma loop_count_mono:
  assumes "0 < h"
  shows "loop_count h x_end (c + real k * h) \<le> loop_count h x_end c"
proof (rule ccontr)
  assume "\<not> ?thesis"
  then have "loop_count h x_end c < loop_count h x_end (c + real k * h)" by simp
  then have "c + real k * h + real (loop_count h x_end c) * h < x_end - h / 2"
    by (simp only: loop_count_less [OF assms])
  moreover have "0 \<le> real k * h" using assms by simp
  ultimately have "c + real (loop_count h x_end c) * h < x_end - h / 2" by linarith
  then have "loop_count h x_end c < loop_count h x_end c"
    by (simp only: loop_count_less [OF assms])
  then show False by simp
qed

text \<open>
  A trajectory whose \<open>i\<close>-th abscissa is \<open>c + i h\<close> and whose loop started at index \<open>k\<close>.
\<close>

lemma stopping_generic:
  fixes traj :: "State list"
  assumes h: "0 < h"
    and len: "length traj = Suc (k + loop_count h x_end (c + real k * h))"
    and xs: "\<And>i. i < length traj \<Longrightarrow> x (traj ! i) = c + real i * h"
  shows "\<forall>i<length traj. k \<le> i \<longrightarrow> (Suc i < length traj) = (x (traj ! i) < x_end - h / 2)"
    and "x_end - h / 2 \<le> x (last traj)"
    and "c + real k * h \<le> x_end + h / 2 \<Longrightarrow> x (last traj) \<le> x_end + h / 2"
proof -
  let ?N = "loop_count h x_end (c + real k * h)"
  have key: "(j < ?N) = (c + real (k + j) * h < x_end - h / 2)" for j
    using loop_count_less [OF h, of j x_end "c + real k * h"] by (simp add: algebra_simps)
  show "\<forall>i<length traj. k \<le> i \<longrightarrow> (Suc i < length traj) = (x (traj ! i) < x_end - h / 2)"
  proof (intro allI impI)
    fix i assume i: "i < length traj" "k \<le> i"
    then have "(Suc i < length traj) = (i - k < ?N)" using len by auto
    also have "\<dots> = (c + real i * h < x_end - h / 2)" using key [of "i - k"] i(2) by simp
    finally show "(Suc i < length traj) = (x (traj ! i) < x_end - h / 2)" using xs [OF i(1)] by simp
  qed
  have ne: "traj \<noteq> []" using len by auto
  have l: "last traj = traj ! (k + ?N)" using len ne by (simp add: last_conv_nth)
  have xl: "x (last traj) = c + real (k + ?N) * h" unfolding l using xs [of "k + ?N"] len by simp
  from key [of ?N] show "x_end - h / 2 \<le> x (last traj)" unfolding xl by simp
  show "x (last traj) \<le> x_end + h / 2" if k: "c + real k * h \<le> x_end + h / 2"
  proof (cases ?N)
    case 0
    with k show ?thesis unfolding xl by simp
  next
    case (Suc m)
    then have "m < ?N" by simp
    with key [of m] have "c + real (k + m) * h < x_end - h / 2" by simp
    then have "c + real (k + Suc m) * h < x_end + h / 2" using h by (simp add: algebra_simps)
    then show ?thesis unfolding xl Suc by simp
  qed
qed

lemma chain_of_xs:
  fixes traj :: "State list"
  assumes "\<And>i. i < length traj \<Longrightarrow> x (traj ! i) = c + real i * h"
  shows "\<forall>i. Suc i < length traj \<longrightarrow> x (traj ! Suc i) = x (traj ! i) + h"
    and "0 < h \<Longrightarrow> \<forall>i j. i < j \<and> j < length traj \<longrightarrow> x (traj ! i) < x (traj ! j)"
proof -
  show "\<forall>i. Suc i < length traj \<longrightarrow> x (traj ! Suc i) = x (traj ! i) + h"
    by (simp add: assms algebra_simps)
  show "\<forall>i j. i < j \<and> j < length traj \<longrightarrow> x (traj ! i) < x (traj ! j)" if "0 < h"
    using that by (simp add: assms)
qed

subsection \<open>The loops of the solve methods\<close>

text \<open>
  For a positive step each loop returns, after \<open>loop_count\<close> rounds; whatever a loop
  returns, for any step, extends the vector it started from.
\<close>

lemma solveRK4_loop_total:
  assumes "0 < h"
  shows "solveRK4_loop S h x_end current solution =
           Some (solution @ iterate_states (\<lambda>s. rk4Step S s h) (loop_count h x_end (x current)) current)"
proof (induction "loop_count h x_end (x current)" arbitrary: current solution)
  case 0
  from loop_count_0 [OF assms 0 [symmetric]] 0 [symmetric] show ?case
    by (subst solveRK4_loop.simps) simp
next
  case (Suc n)
  note lc = loop_count_Suc [OF assms Suc(2) [symmetric]]
  from lc(2) have "n = loop_count h x_end (x (rk4Step S current h))" by simp
  from Suc(1) [OF this] lc Suc(2) [symmetric] show ?case
    by (subst solveRK4_loop.simps) (simp add: Let_def)
qed

lemma solveRK4_loop_partial:
  assumes "solveRK4_loop S h x_end current solution = Some traj"
  shows "\<exists>n. traj = solution @ iterate_states (\<lambda>s. rk4Step S s h) n current"
proof (rule solveRK4_loop.raw_induct
    [where P = "\<lambda>S h x_end current solution traj.
                  \<exists>n. traj = solution @ iterate_states (\<lambda>s. rk4Step S s h) n current",
     OF _ assms])
  fix loop S h x_end current solution traj
  assume IH: "\<And>S h x_end current solution traj.
      loop S h x_end current solution = Some traj \<Longrightarrow>
      \<exists>n. traj = solution @ iterate_states (\<lambda>s. rk4Step S s h) n current"
    and body: "(if x current < x_end - h / 2
       then let current' = rk4Step S current h
            in loop S h x_end current' (solution @ [current'])
       else Some solution) = Some traj"
  show "\<exists>n. traj = solution @ iterate_states (\<lambda>s. rk4Step S s h) n current"
  proof (cases "x current < x_end - h / 2")
    case True
    with body have "loop S h x_end (rk4Step S current h) (solution @ [rk4Step S current h]) = Some traj"
      by (simp add: Let_def)
    from IH [OF this] obtain n
      where "traj = (solution @ [rk4Step S current h]) @ iterate_states (\<lambda>s. rk4Step S s h) n (rk4Step S current h)" ..
    then have "traj = solution @ iterate_states (\<lambda>s. rk4Step S s h) (Suc n) current" by simp
    then show ?thesis by blast
  next
    case False
    with body have "traj = solution @ iterate_states (\<lambda>s. rk4Step S s h) 0 current" by simp
    then show ?thesis by blast
  qed
qed

lemma solveEuler_loop_total:
  assumes "0 < h"
  shows "solveEuler_loop S h x_end current solution =
           Some (solution @ iterate_states (\<lambda>s. eulerStep S s h) (loop_count h x_end (x current)) current)"
proof (induction "loop_count h x_end (x current)" arbitrary: current solution)
  case 0
  from loop_count_0 [OF assms 0 [symmetric]] 0 [symmetric] show ?case
    by (subst solveEuler_loop.simps) simp
next
  case (Suc n)
  note lc = loop_count_Suc [OF assms Suc(2) [symmetric]]
  from lc(2) have "n = loop_count h x_end (x (eulerStep S current h))" by simp
  from Suc(1) [OF this] lc Suc(2) [symmetric] show ?case
    by (subst solveEuler_loop.simps) (simp add: Let_def)
qed

lemma solveEuler_loop_partial:
  assumes "solveEuler_loop S h x_end current solution = Some traj"
  shows "\<exists>n. traj = solution @ iterate_states (\<lambda>s. eulerStep S s h) n current"
proof (rule solveEuler_loop.raw_induct
    [where P = "\<lambda>S h x_end current solution traj.
                  \<exists>n. traj = solution @ iterate_states (\<lambda>s. eulerStep S s h) n current",
     OF _ assms])
  fix loop S h x_end current solution traj
  assume IH: "\<And>S h x_end current solution traj.
      loop S h x_end current solution = Some traj \<Longrightarrow>
      \<exists>n. traj = solution @ iterate_states (\<lambda>s. eulerStep S s h) n current"
    and body: "(if x current < x_end - h / 2
       then let current' = eulerStep S current h
            in loop S h x_end current' (solution @ [current'])
       else Some solution) = Some traj"
  show "\<exists>n. traj = solution @ iterate_states (\<lambda>s. eulerStep S s h) n current"
  proof (cases "x current < x_end - h / 2")
    case True
    with body have "loop S h x_end (eulerStep S current h) (solution @ [eulerStep S current h]) = Some traj"
      by (simp add: Let_def)
    from IH [OF this] obtain n
      where "traj = (solution @ [eulerStep S current h]) @ iterate_states (\<lambda>s. eulerStep S s h) n (eulerStep S current h)" ..
    then have "traj = solution @ iterate_states (\<lambda>s. eulerStep S s h) (Suc n) current" by simp
    then show ?thesis by blast
  next
    case False
    with body have "traj = solution @ iterate_states (\<lambda>s. eulerStep S s h) 0 current" by simp
    then show ?thesis by blast
  qed
qed

lemma solveAdams3_bootstrap_eq:
  "solveAdams3_bootstrap S h 0 [] =
     [m_initial_state S, rk4Step S (m_initial_state S) h,
      rk4Step S (rk4Step S (m_initial_state S) h) h]"
proof -
  have 3: "solveAdams3_bootstrap S h (Suc (Suc (Suc 0))) sol = sol" for sol
    by (subst solveAdams3_bootstrap.simps) simp
  have 2: "solveAdams3_bootstrap S h (Suc (Suc 0)) sol = sol @ [rk4Step S (last sol) h]" for sol
    by (subst solveAdams3_bootstrap.simps) (simp add: 3)
  have 1: "solveAdams3_bootstrap S h (Suc 0) sol =
      (sol @ [rk4Step S (last sol) h]) @ [rk4Step S (last (sol @ [rk4Step S (last sol) h])) h]" for sol
    by (subst solveAdams3_bootstrap.simps) (simp add: 2)
  show ?thesis
    by (subst solveAdams3_bootstrap.simps) (simp add: 1)
qed

lemma solveAdams3_loop_total:
  assumes "0 < h"
  shows "3 \<le> length solution \<Longrightarrow>
         \<exists>ext. solveAdams3_loop S h x_end solution = Some (solution @ ext) \<and>
               length ext = loop_count h x_end (x (last solution))"
proof (induction "loop_count h x_end (x (last solution))" arbitrary: solution)
  case 0
  from loop_count_0 [OF assms 0(1) [symmetric]] 0(1) [symmetric] show ?case
    by (subst solveAdams3_loop.simps) simp
next
  case (Suc n)
  note lc = loop_count_Suc [OF assms Suc(2) [symmetric]]
  from adams3Step_defined [OF Suc(3)] obtain nxt
    where nxt: "adams3Step S solution h = Some nxt" by blast
  from adams3Step_x [OF nxt] lc(2)
  have "n = loop_count h x_end (x (last (solution @ [nxt])))" by simp
  moreover from Suc(3) have "3 \<le> length (solution @ [nxt])" by simp
  ultimately obtain ext
    where ext: "solveAdams3_loop S h x_end (solution @ [nxt]) = Some ((solution @ [nxt]) @ ext)"
               "length ext = n"
    using Suc(1) [of "solution @ [nxt]"] by (metis adams3Step_x lc(2) nxt last_snoc)
  have "solveAdams3_loop S h x_end solution = Some (solution @ nxt # ext)"
    by (subst solveAdams3_loop.simps) (use lc(1) nxt ext(1) in simp)
  with ext(2) Suc(2) show ?case
    by (intro exI [of _ "nxt # ext"]) simp
qed

lemma solveAdams3_loop_partial:
  assumes "solveAdams3_loop S h x_end solution = Some traj"
  shows "\<exists>ext. traj = solution @ ext \<and>
           (\<forall>i<length ext. x (ext ! i) = x (last solution) + real (Suc i) * h)"
proof (rule solveAdams3_loop.raw_induct
    [where P = "\<lambda>S h x_end solution traj. \<exists>ext. traj = solution @ ext \<and>
           (\<forall>i<length ext. x (ext ! i) = x (last solution) + real (Suc i) * h)",
     OF _ assms])
  fix loop S h x_end solution traj
  assume IH: "\<And>S h x_end solution traj.
      loop S h x_end solution = Some traj \<Longrightarrow>
      \<exists>ext. traj = solution @ ext \<and>
           (\<forall>i<length ext. x (ext ! i) = x (last solution) + real (Suc i) * h)"
    and body: "(if x (last solution) < x_end - h / 2
       then case adams3Step S solution h of None \<Rightarrow> None
            | Some next \<Rightarrow> loop S h x_end (solution @ [next])
       else Some solution) = Some traj"
  show "\<exists>ext. traj = solution @ ext \<and>
           (\<forall>i<length ext. x (ext ! i) = x (last solution) + real (Suc i) * h)"
  proof (cases "x (last solution) < x_end - h / 2")
    case True
    with body obtain nxt where nxt: "adams3Step S solution h = Some nxt"
      and rec: "loop S h x_end (solution @ [nxt]) = Some traj"
      by (auto split: option.splits)
    from IH [OF rec] obtain ext where ext: "traj = (solution @ [nxt]) @ ext"
      "\<forall>i<length ext. x (ext ! i) = x (last (solution @ [nxt])) + real (Suc i) * h"
      by blast
    have "x ((nxt # ext) ! i) = x (last solution) + real (Suc i) * h" if "i < length (nxt # ext)" for i
    proof (cases i)
      case 0
      then show ?thesis using adams3Step_x [OF nxt] by simp
    next
      case (Suc j)
      with that ext(2) have "x (ext ! j) = x nxt + real (Suc j) * h" by simp
      with Suc show ?thesis using adams3Step_x [OF nxt] by (simp add: algebra_simps)
    qed
    with ext(1) show ?thesis
      by (intro exI [of _ "nxt # ext"]) simp
  next
    case False
    with body have "traj = solution @ []" by simp
    then show ?thesis by (intro exI [of _ "[]"]) simp
  qed
qed

subsection \<open>The capacity request\<close>

lemma reserve_request_None:
  "reserve_request x0 h x_end = None \<longleftrightarrow> h = 0 \<or> (x_end - x0) / h \<le> - 1"
  by (simp add: reserve_request_def Let_def)

lemma reserve_request_defined:
  assumes "0 < h" and "x0 - h < x_end"
  shows "\<exists>capacity. reserve_request x0 h x_end = Some capacity"
proof -
  from assms have "- 1 < (x_end - x0) / h" by (simp add: pos_less_divide_eq)
  with assms(1) have "reserve_request x0 h x_end \<noteq> None" by (simp add: reserve_request_None)
  then show ?thesis by blast
qed

subsection \<open>What the solve methods return\<close>

lemma solveRK4_Inr:
  "solveRK4 S h x_end = Some (Inr traj) \<Longrightarrow>
   solveRK4_loop S h x_end (m_initial_state S) [m_initial_state S] = Some traj"
  by (auto simp: solveRK4_def Let_def split: option.splits)

lemma solveEuler_Inr:
  "solveEuler S h x_end = Some (Inr traj) \<Longrightarrow>
   solveEuler_loop S h x_end (m_initial_state S) [m_initial_state S] = Some traj"
  by (auto simp: solveEuler_def Let_def split: option.splits)

lemma solveAdams3_Inr:
  "solveAdams3 S h x_end = Some (Inr traj) \<Longrightarrow>
   solveAdams3_loop S h x_end (solveAdams3_bootstrap S h 0 []) = Some traj"
  by (auto simp: solveAdams3_def split: option.splits)

lemma solveRK4_shape:
  assumes "solveRK4 S h x_end = Some (Inr traj)"
  shows "\<exists>n. traj = m_initial_state S # iterate_states (\<lambda>s. rk4Step S s h) n (m_initial_state S)"
  using solveRK4_loop_partial [OF solveRK4_Inr [OF assms]] by simp

lemma solveEuler_shape:
  assumes "solveEuler S h x_end = Some (Inr traj)"
  shows "\<exists>n. traj = m_initial_state S # iterate_states (\<lambda>s. eulerStep S s h) n (m_initial_state S)"
  using solveEuler_loop_partial [OF solveEuler_Inr [OF assms]] by simp

lemma solveRK4_xs:
  assumes "solveRK4 S h x_end = Some (Inr traj)"
  shows "traj \<noteq> []" and "hd traj = m_initial_state S"
    and "\<And>i. i < length traj \<Longrightarrow> x (traj ! i) = x (m_initial_state S) + real i * h"
proof -
  from solveRK4_shape [OF assms] obtain n
    where t: "traj = m_initial_state S # iterate_states (\<lambda>s. rk4Step S s h) n (m_initial_state S)" ..
  show "traj \<noteq> []" "hd traj = m_initial_state S" by (simp_all add: t)
  show "x (traj ! i) = x (m_initial_state S) + real i * h" if "i < length traj" for i
    using that unfolding t by (intro iterate_xs) simp_all
qed

lemma solveEuler_xs:
  assumes "solveEuler S h x_end = Some (Inr traj)"
  shows "traj \<noteq> []" and "hd traj = m_initial_state S"
    and "\<And>i. i < length traj \<Longrightarrow> x (traj ! i) = x (m_initial_state S) + real i * h"
proof -
  from solveEuler_shape [OF assms] obtain n
    where t: "traj = m_initial_state S # iterate_states (\<lambda>s. eulerStep S s h) n (m_initial_state S)" ..
  show "traj \<noteq> []" "hd traj = m_initial_state S" by (simp_all add: t)
  show "x (traj ! i) = x (m_initial_state S) + real i * h" if "i < length traj" for i
    using that unfolding t by (intro iterate_xs) simp_all
qed

lemma solveAdams3_shape:
  assumes "solveAdams3 S h x_end = Some (Inr traj)"
  shows "\<exists>ext. traj = [m_initial_state S, rk4Step S (m_initial_state S) h,
                        rk4Step S (rk4Step S (m_initial_state S) h) h] @ ext \<and>
           (\<forall>i<length ext. x (ext ! i) = x (m_initial_state S) + real (i + 3) * h)"
proof -
  from solveAdams3_Inr [OF assms] have "solveAdams3_loop S h x_end
     [m_initial_state S, rk4Step S (m_initial_state S) h,
      rk4Step S (rk4Step S (m_initial_state S) h) h] = Some traj"
    by (simp add: solveAdams3_bootstrap_eq)
  from solveAdams3_loop_partial [OF this] show ?thesis
    by (simp add: algebra_simps)
qed

lemma solveAdams3_xs:
  assumes "solveAdams3 S h x_end = Some (Inr traj)"
  shows "3 \<le> length traj" and "hd traj = m_initial_state S"
    and "\<And>i. i < length traj \<Longrightarrow> x (traj ! i) = x (m_initial_state S) + real i * h"
proof -
  let ?s0 = "m_initial_state S"
  from solveAdams3_shape [OF assms] obtain ext
    where t: "traj = [?s0, rk4Step S ?s0 h, rk4Step S (rk4Step S ?s0 h) h] @ ext"
      and e: "\<And>i. i < length ext \<Longrightarrow> x (ext ! i) = x ?s0 + real (i + 3) * h"
    by blast
  show "3 \<le> length traj" "hd traj = ?s0" by (simp_all add: t)
  show "x (traj ! i) = x ?s0 + real i * h" if "i < length traj" for i
  proof (cases "i < 3")
    case True
    then consider "i = 0" | "i = 1" | "i = 2" by linarith
    then show ?thesis by cases (simp_all add: t)
  next
    case False
    then have i: "i = (i - 3) + 3" by simp
    with that have "i - 3 < length ext" by (simp add: t)
    from e [OF this] i have "x (ext ! (i - 3)) = x ?s0 + real i * h" by simp
    moreover have "traj ! i = ext ! (i - 3)" using False by (simp add: t nth_append numeral_3_eq_3)
    ultimately show ?thesis by simp
  qed
qed

lemma solveRK4_total:
  assumes "0 < h" and "x (m_initial_state S) - h < x_end"
  shows "\<exists>traj. solveRK4 S h x_end = Some (Inr traj) \<and>
           length traj = Suc (loop_count h x_end (x (m_initial_state S)))"
proof -
  from reserve_request_defined [OF assms] obtain capacity
    where "reserve_request (x (m_initial_state S)) h x_end = Some capacity" ..
  then show ?thesis
    by (simp add: solveRK4_def Let_def solveRK4_loop_total [OF assms(1)])
qed

lemma solveEuler_total:
  assumes "0 < h" and "x (m_initial_state S) - h < x_end"
  shows "\<exists>traj. solveEuler S h x_end = Some (Inr traj) \<and>
           length traj = Suc (loop_count h x_end (x (m_initial_state S)))"
proof -
  from reserve_request_defined [OF assms] obtain capacity
    where "reserve_request (x (m_initial_state S)) h x_end = Some capacity" ..
  then show ?thesis
    by (simp add: solveEuler_def Let_def solveEuler_loop_total [OF assms(1)])
qed

lemma solveAdams3_total:
  assumes "0 < h" and "x (m_initial_state S) - h < x_end"
  shows "\<exists>traj. solveAdams3 S h x_end = Some (Inr traj) \<and>
           length traj = Suc (2 + loop_count h x_end (x (m_initial_state S) + real 2 * h))"
proof -
  from reserve_request_defined [OF assms] obtain capacity
    where cap: "reserve_request (x (m_initial_state S)) h x_end = Some capacity" ..
  let ?boot = "[m_initial_state S, rk4Step S (m_initial_state S) h,
      rk4Step S (rk4Step S (m_initial_state S) h) h]"
  have "3 \<le> length ?boot" by simp
  from solveAdams3_loop_total [OF assms(1) this, of S x_end] obtain ext
    where "solveAdams3_loop S h x_end ?boot = Some (?boot @ ext)"
      and "length ext = loop_count h x_end (x (last ?boot))" by blast
  with cap show ?thesis
    by (simp add: solveAdams3_def solveAdams3_bootstrap_eq algebra_simps)
qed

subsection \<open>The loop of the error estimate\<close>

lemma runge_loop:
  "calculateRungeError_loop fine coarse p (2 * k) k errors =
     errors @ map (\<lambda>i. \<bar>y (fine ! (2 * i)) - y (coarse ! i)\<bar> / (1 - 2 powr (- p)))
                  [k..<max k (min ((length fine + 1) div 2) (length coarse))]"
proof (induction "length fine - 2 * k" arbitrary: k errors rule: less_induct)
  case less
  let ?n = "min ((length fine + 1) div 2) (length coarse)"
  show ?case
  proof (cases "2 * k < length fine \<and> k < length coarse")
    case True
    then have "length fine - 2 * (k + 1) < length fine - 2 * k" by arith
    from less[OF this] have IH: "calculateRungeError_loop fine coarse p (2 * k + 2) (k + 1) errs =
       errs @ map (\<lambda>i. \<bar>y (fine ! (2 * i)) - y (coarse ! i)\<bar> / (1 - 2 powr (- p)))
                  [k + 1..<max (k + 1) ?n]" for errs
      by simp
    from True have "k < (length fine + 1) div 2" by arith
    with True have kn: "k < ?n" by simp
    then have m: "max k ?n = ?n" "max (k + 1) ?n = ?n" by simp_all
    have u: "[k..<?n] = k # [k + 1..<?n]" using kn by (simp add: upt_conv_Cons)
    have step: "calculateRungeError_loop fine coarse p (2 * k) k errors =
        calculateRungeError_loop fine coarse p (2 * k + 2) (k + 1)
          (errors @ [\<bar>y (fine ! (2 * k)) - y (coarse ! k)\<bar> / (1 - 2 powr (- p))])"
      by (subst calculateRungeError_loop.simps) (use True in \<open>simp add: Let_def\<close>)
    show ?thesis
      unfolding step IH m u by simp
  next
    case False
    then have "(length fine + 1) div 2 \<le> k \<or> length coarse \<le> k" by arith
    then have "max k ?n = k" by auto
    with False show ?thesis
      by (subst calculateRungeError_loop.simps) auto
  qed
qed

subsection \<open>The solver object\<close>

lemma stateless_object_of: "stateless (object_of S)"
  by (simp add: stateless_def object_of_def pure_call_def)

lemma pure_view_object_of: "pure_view (object_of S) = S"
  by (simp add: pure_view_def object_of_def pure_call_def)

































section \<open>The claims\<close>

subsection \<open>C1: invalid step configuration\<close>

text \<open>
  Claim C1 says that a call of \<^verbatim>\<open>solveEuler\<close>, \<^verbatim>\<open>solveRK4\<close> or \<^verbatim>\<open>solveAdams3\<close> with \<open>h \<le> 0\<close> or
  \<open>x_end \<le> x0\<close> reports an invalid-argument condition before any stepping, so that no step
  function is applied and nothing beyond the initial condition is produced.

  Counterexample to C1. The three bodies contain no check of \<open>h\<close> or \<open>x_end\<close> and no
  \<^verbatim>\<open>throw\<close>. With \<open>x0 = 0\<close>: \<^verbatim>\<open>solveRK4(1, 0)\<close> (here \<open>x_end \<le> x0\<close>) returns the one-element
  trajectory; \<^verbatim>\<open>solveEuler(-1, -1)\<close> (here \<open>h \<le> 0\<close> and \<open>x_end \<le> x0\<close>) returns it too; and
  \<^verbatim>\<open>solveAdams3(1, 0)\<close> returns three points with abscissae \<open>0, 1, 2\<close>, so two RK4 steps were
  applied. (The capacity requests of these calls are \<open>1\<close>, \<open>2\<close> and \<open>1\<close>.)
\<close>

theorem solve_invalid_arguments_counterexample:
  "solveRK4 (new_ODESolver test_ode 0 0 1) 1 0 = Some (Inr [\<lparr>x = 0, y = 0, dy = 1\<rparr>]) \<and>
   solveEuler (new_ODESolver test_ode 0 0 1) (- 1) (- 1) = Some (Inr [\<lparr>x = 0, y = 0, dy = 1\<rparr>]) \<and>
   map_option (map_sum id (map x)) (solveAdams3 (new_ODESolver test_ode 0 0 1) 1 0) =
     Some (Inr [0, 1, 2])"
  by (simp add: solveRK4_def solveRK4_loop.simps solveEuler_def solveEuler_loop.simps
      solveAdams3_def solveAdams3_bootstrap_eq solveAdams3_loop.simps new_ODESolver_def
      reserve_request_def)

text \<open>
  Claim C1 as amended. The solve methods do not validate their arguments and report no
  invalid-argument condition. For \<open>h > 0\<close> and \<open>x0 - h < x_end \<le> x0\<close> the call returns
  normally: \<^verbatim>\<open>solveEuler\<close> and \<^verbatim>\<open>solveRK4\<close> return the trajectory that consists of the initial
  condition alone (no step is applied), and \<^verbatim>\<open>solveAdams3\<close> returns the three-point bootstrap
  (the initial condition and two RK4 steps). The bound \<open>x0 - h < x_end\<close> keeps the quotient
  \<open>(x_end - x0) / h\<close> of the capacity request above \<open>-1\<close>, so that its conversion to
  \<^verbatim>\<open>size_t\<close> is defined (and is \<open>0\<close>); nothing is stated about \<open>h \<le> 0\<close> or about
  \<open>x_end \<le> x0 - h\<close>.
\<close>

theorem solve_without_validation:
  assumes "0 < h" and "x_end \<le> x (m_initial_state S)" and "x (m_initial_state S) - h < x_end"
  shows "solveEuler S h x_end = Some (Inr [m_initial_state S]) \<and>
         solveRK4 S h x_end = Some (Inr [m_initial_state S]) \<and>
         solveAdams3 S h x_end =
           Some (Inr [m_initial_state S, rk4Step S (m_initial_state S) h,
                      rk4Step S (rk4Step S (m_initial_state S) h) h])"
proof (intro conjI)
  from reserve_request_defined [OF assms(1,3)] obtain capacity
    where cap: "reserve_request (x (m_initial_state S)) h x_end = Some capacity" ..
  from assms(1,2) have g: "\<not> x (m_initial_state S) < x_end - h / 2" by simp
  have "solveEuler_loop S h x_end (m_initial_state S) [m_initial_state S] = Some [m_initial_state S]"
    by (subst solveEuler_loop.simps) (simp add: g)
  then show "solveEuler S h x_end = Some (Inr [m_initial_state S])"
    by (simp add: solveEuler_def Let_def cap)
  have "solveRK4_loop S h x_end (m_initial_state S) [m_initial_state S] = Some [m_initial_state S]"
    by (subst solveRK4_loop.simps) (simp add: g)
  then show "solveRK4 S h x_end = Some (Inr [m_initial_state S])"
    by (simp add: solveRK4_def Let_def cap)
  from assms(1,2) have "\<not> x (m_initial_state S) + h + h < x_end - h / 2" by simp
  then have "solveAdams3_loop S h x_end
      [m_initial_state S, rk4Step S (m_initial_state S) h,
       rk4Step S (rk4Step S (m_initial_state S) h) h] =
      Some [m_initial_state S, rk4Step S (m_initial_state S) h,
            rk4Step S (rk4Step S (m_initial_state S) h) h]"
    by (subst solveAdams3_loop.simps) simp
  then show "solveAdams3 S h x_end =
           Some (Inr [m_initial_state S, rk4Step S (m_initial_state S) h,
                      rk4Step S (rk4Step S (m_initial_state S) h) h])"
    by (simp add: solveAdams3_def solveAdams3_bootstrap_eq cap)
qed

theorem solve_without_validation_witness:
  "(0::real) < 1 \<and> (0::real) \<le> x (m_initial_state test_solver) \<and>
   x (m_initial_state test_solver) - 1 < (0::real) \<and>
   solveEuler test_solver 1 0 = Some (Inr [m_initial_state test_solver]) \<and>
   solveRK4 test_solver 1 0 = Some (Inr [m_initial_state test_solver]) \<and>
   solveAdams3 test_solver 1 0 =
     Some (Inr [m_initial_state test_solver, rk4Step test_solver (m_initial_state test_solver) 1,
                rk4Step test_solver (rk4Step test_solver (m_initial_state test_solver) 1) 1])"
proof -
  have h1: "(0::real) < 1" by simp
  have h2: "(0::real) \<le> x (m_initial_state test_solver)"
    by (simp add: test_solver_def new_ODESolver_def)
  have h3: "x (m_initial_state test_solver) - 1 < (0::real)"
    by (simp add: test_solver_def new_ODESolver_def)
  show ?thesis
    by (rule conjI [OF h1 conjI [OF h2 conjI [OF h3 solve_without_validation [OF h1 h2 h3]]]])
qed

subsection \<open>C2: the stopping rule\<close>

text \<open>
  Claim C2 says that for \<open>h > 0\<close> and \<open>x_end > x0\<close> each of the three solvers appends a step
  exactly while the last point's abscissa is below \<open>x_end - h / 2\<close>, so that the last
  abscissa of the returned trajectory lies in \<open>[x_end - h / 2, x_end + h / 2]\<close>.

  Counterexample to C2. \<^verbatim>\<open>solveAdams3\<close> appends its two bootstrap steps before the guard is
  looked at for the first time. With \<open>x0 = 0\<close>, \<open>h = 1\<close> and \<open>x_end = 1 / 2\<close> (so \<open>h > 0\<close> and
  \<open>x_end > x0\<close>) the abscissae of the returned trajectory are \<open>0, 1, 2\<close>: steps were appended
  after the points at \<open>0\<close> and \<open>1\<close>, which are not below \<open>x_end - h / 2 = 0\<close>, and the last
  abscissa \<open>2\<close> exceeds \<open>x_end + h / 2 = 1\<close>.
\<close>

theorem stopping_rule_counterexample:
  "(0::real) < 1 \<and> x (m_initial_state (new_ODESolver test_ode 0 0 1)) < 1 / 2 \<and>
   map_option (map_sum id (map x)) (solveAdams3 (new_ODESolver test_ode 0 0 1) 1 (1 / 2)) =
     Some (Inr [0, 1, 2]) \<and>
   \<not> (0::real) < 1 / 2 - 1 / 2 \<and> \<not> (1::real) < 1 / 2 - 1 / 2 \<and>
   \<not> last [0, 1, 2] \<le> (1 / 2 + 1 / 2 :: real)"
  by (simp add: solveAdams3_def solveAdams3_bootstrap_eq solveAdams3_loop.simps new_ODESolver_def
      reserve_request_def)

text \<open>
  Claim C2 as amended. For \<open>h > 0\<close> and \<open>x_end > x0\<close>, \<^verbatim>\<open>solveRK4\<close> and \<^verbatim>\<open>solveEuler\<close> return a
  trajectory in which a point is followed by another one exactly if its abscissa is below
  \<open>x_end - h / 2\<close>, and whose last abscissa lies in \<open>[x_end - h / 2, x_end + h / 2]\<close>.
  \<^verbatim>\<open>solveAdams3\<close> returns a trajectory that starts with the initial condition and two RK4
  steps, appended unconditionally, and in which this holds for the points from the third
  one on; its last abscissa is at least \<open>x_end - h / 2\<close>, and at most \<open>x_end + h / 2\<close>
  provided \<open>x0 + 3 h / 2 \<le> x_end\<close>.
\<close>

theorem stopping_rule:
  assumes "0 < h" and "x (m_initial_state S) < x_end"
  shows "(\<exists>traj. solveRK4 S h x_end = Some (Inr traj) \<and>
            (\<forall>i<length traj. (Suc i < length traj) = (x (traj ! i) < x_end - h / 2)) \<and>
            x_end - h / 2 \<le> x (last traj) \<and> x (last traj) \<le> x_end + h / 2) \<and>
         (\<exists>traj. solveEuler S h x_end = Some (Inr traj) \<and>
            (\<forall>i<length traj. (Suc i < length traj) = (x (traj ! i) < x_end - h / 2)) \<and>
            x_end - h / 2 \<le> x (last traj) \<and> x (last traj) \<le> x_end + h / 2) \<and>
         (\<exists>traj. solveAdams3 S h x_end = Some (Inr traj) \<and>
            take 3 traj = [m_initial_state S, rk4Step S (m_initial_state S) h,
                           rk4Step S (rk4Step S (m_initial_state S) h) h] \<and>
            (\<forall>i<length traj. 2 \<le> i \<longrightarrow> (Suc i < length traj) = (x (traj ! i) < x_end - h / 2)) \<and>
            x_end - h / 2 \<le> x (last traj) \<and>
            (x (m_initial_state S) + 3 * h / 2 \<le> x_end \<longrightarrow> x (last traj) \<le> x_end + h / 2))"
proof (intro conjI)
  let ?c = "x (m_initial_state S)"
  from assms have c0: "?c + real 0 * h \<le> x_end + h / 2" by simp
  from assms have cap: "?c - h < x_end" by simp
  show "\<exists>traj. solveRK4 S h x_end = Some (Inr traj) \<and>
            (\<forall>i<length traj. (Suc i < length traj) = (x (traj ! i) < x_end - h / 2)) \<and>
            x_end - h / 2 \<le> x (last traj) \<and> x (last traj) \<le> x_end + h / 2"
  proof -
    from solveRK4_total [OF assms(1) cap] obtain traj
      where t: "solveRK4 S h x_end = Some (Inr traj)"
        and "length traj = Suc (loop_count h x_end ?c)" by blast
    then have len: "length traj = Suc (0 + loop_count h x_end (?c + real 0 * h))" by simp
    from stopping_generic [OF assms(1) len solveRK4_xs(3) [OF t]] c0 t show ?thesis by simp
  qed
  show "\<exists>traj. solveEuler S h x_end = Some (Inr traj) \<and>
            (\<forall>i<length traj. (Suc i < length traj) = (x (traj ! i) < x_end - h / 2)) \<and>
            x_end - h / 2 \<le> x (last traj) \<and> x (last traj) \<le> x_end + h / 2"
  proof -
    from solveEuler_total [OF assms(1) cap] obtain traj
      where t: "solveEuler S h x_end = Some (Inr traj)"
        and "length traj = Suc (loop_count h x_end ?c)" by blast
    then have len: "length traj = Suc (0 + loop_count h x_end (?c + real 0 * h))" by simp
    from stopping_generic [OF assms(1) len solveEuler_xs(3) [OF t]] c0 t show ?thesis by simp
  qed
  show "\<exists>traj. solveAdams3 S h x_end = Some (Inr traj) \<and>
            take 3 traj = [m_initial_state S, rk4Step S (m_initial_state S) h,
                           rk4Step S (rk4Step S (m_initial_state S) h) h] \<and>
            (\<forall>i<length traj. 2 \<le> i \<longrightarrow> (Suc i < length traj) = (x (traj ! i) < x_end - h / 2)) \<and>
            x_end - h / 2 \<le> x (last traj) \<and>
            (?c + 3 * h / 2 \<le> x_end \<longrightarrow> x (last traj) \<le> x_end + h / 2)"
  proof -
    from solveAdams3_total [OF assms(1) cap] obtain traj
      where t: "solveAdams3 S h x_end = Some (Inr traj)"
        and len: "length traj = Suc (2 + loop_count h x_end (?c + real 2 * h))" by blast
    from solveAdams3_shape [OF t] have t3: "take 3 traj =
        [m_initial_state S, rk4Step S (m_initial_state S) h,
         rk4Step S (rk4Step S (m_initial_state S) h) h]" by auto
    have "?c + real 2 * h \<le> x_end + h / 2" if "?c + 3 * h / 2 \<le> x_end"
      using that by simp
    with stopping_generic [OF assms(1) len solveAdams3_xs(3) [OF t]] t t3 show ?thesis by blast
  qed
qed

theorem stopping_rule_witness:
  "(0::real) < 1 \<and> x (m_initial_state test_solver) < 2 \<and>
   ((\<exists>traj. solveRK4 test_solver (1::real) 2 = Some (Inr traj) \<and>
            (\<forall>i<length traj. (Suc i < length traj) = (x (traj ! i) < 2 - (1::real) / 2)) \<and>
            2 - (1::real) / 2 \<le> x (last traj) \<and> x (last traj) \<le> 2 + (1::real) / 2) \<and>
         (\<exists>traj. solveEuler test_solver (1::real) 2 = Some (Inr traj) \<and>
            (\<forall>i<length traj. (Suc i < length traj) = (x (traj ! i) < 2 - (1::real) / 2)) \<and>
            2 - (1::real) / 2 \<le> x (last traj) \<and> x (last traj) \<le> 2 + (1::real) / 2) \<and>
         (\<exists>traj. solveAdams3 test_solver (1::real) 2 = Some (Inr traj) \<and>
            take 3 traj = [m_initial_state test_solver, rk4Step test_solver (m_initial_state test_solver) (1::real),
                           rk4Step test_solver (rk4Step test_solver (m_initial_state test_solver) (1::real)) (1::real)] \<and>
            (\<forall>i<length traj. 2 \<le> i \<longrightarrow> (Suc i < length traj) = (x (traj ! i) < 2 - (1::real) / 2)) \<and>
            2 - (1::real) / 2 \<le> x (last traj) \<and>
            (x (m_initial_state test_solver) + 3 * (1::real) / 2 \<le> 2 \<longrightarrow> x (last traj) \<le> 2 + (1::real) / 2)))"
proof -
  have h1: "(0::real) < 1" by simp
  have h2: "x (m_initial_state test_solver) < 2"
    by (simp add: test_solver_def new_ODESolver_def)
  show ?thesis
    by (rule conjI [OF h1 conjI [OF h2 stopping_rule [OF h1 h2]]])
qed

subsection \<open>C3: the Runge-Kutta step\<close>

text \<open>
  Claim C3. For every state \<open>current\<close> and step \<open>h\<close>, \<^verbatim>\<open>rk4Step(current, h)\<close> is the state
  with \<open>x = current.x + h\<close> and \<open>(y, dy) = (current.y, current.dy) + (h / 6) (k1 + 2 k2 + 2 k3 + k4)\<close>
  componentwise, where \<open>k1 = system(current)\<close>, \<open>k2\<close> and \<open>k3\<close> are the system at \<open>current\<close>
  shifted by \<open>h / 2\<close> along \<open>k1\<close> and \<open>k2\<close>, \<open>k4\<close> is the system at \<open>current\<close> shifted by \<open>h\<close>
  along \<open>k3\<close>, and \<open>system(s) = (s.dy, f(s.x, s.y, s.dy))\<close>.
\<close>

theorem rk4Step_formula:
  "(let k1 = system S current;
        k2 = system S (shifted current (h / 2) k1);
        k3 = system S (shifted current (h / 2) k2);
        k4 = system S (shifted current h k3)
    in rk4Step S current h =
         \<lparr>x = x current + h,
          y = y current + h / 6 * (fst k1 + 2 * fst k2 + 2 * fst k3 + fst k4),
          dy = dy current + h / 6 * (snd k1 + 2 * snd k2 + 2 * snd k3 + snd k4)\<rparr>) \<and>
   system S s = (dy s, m_ode S (x s) (y s) (dy s))"
  by (simp add: rk4Step_def system_def shifted_def Let_def)

theorem rk4Step_formula_witness:
  "rk4Step test_solver \<lparr>x = 0, y = 0, dy = 1\<rparr> 1 = \<lparr>x = 1, y = 5 / 6, dy = 13 / 24\<rparr>"
  using rk4Step_formula [of test_solver "\<lparr>x = 0, y = 0, dy = 1\<rparr>" 1]
  by (simp add: Let_def shifted_def system_def test_ode_def test_solver_def new_ODESolver_def)

subsection \<open>C4: the Adams step\<close>

text \<open>
  Claim C4. For every trajectory of at least three points, whose last three points are
  \<open>prev2, prev1, current\<close> in this order, and every step \<open>h\<close>, \<^verbatim>\<open>adams3Step(trajectory, h)\<close>
  is the state with \<open>x = current.x + h\<close>, \<open>y = current.y + h (23 f0 - 16 f1 + 5 f2) / 12\<close> on the
  first components and \<open>dy = current.dy + h (23 f0 - 16 f1 + 5 f2) / 12\<close> on the second
  components of the slope pairs \<open>f0 = system(current)\<close>, \<open>f1 = system(prev1)\<close>,
  \<open>f2 = system(prev2)\<close>.
\<close>

theorem adams3Step_formula:
  assumes "3 \<le> length trajectory"
  shows "\<exists>earlier prev2 prev1 current.
           trajectory = earlier @ [prev2, prev1, current] \<and>
           (let f0 = system S current; f1 = system S prev1; f2 = system S prev2
            in adams3Step S trajectory h =
                 Some \<lparr>x = x current + h,
                       y = y current + h * (23 * fst f0 - 16 * fst f1 + 5 * fst f2) / 12,
                       dy = dy current + h * (23 * snd f0 - 16 * snd f1 + 5 * snd f2) / 12\<rparr>)"
proof -
  from last_three [OF assms] obtain earlier prev2 prev1 current
    where t: "trajectory = earlier @ [prev2, prev1, current]"
    by blast
  show ?thesis
    unfolding Let_def using t adams3Step_append by blast
qed

theorem adams3Step_formula_witness:
  "3 \<le> length [\<lparr>x = 0, y = 0, dy = 1\<rparr>, \<lparr>x = 1, y = 1, dy = 1\<rparr>, \<lparr>x = 2, y = 2, dy = 0\<rparr>] \<and>
   adams3Step test_solver
     [\<lparr>x = 0, y = 0, dy = 1\<rparr>, \<lparr>x = 1, y = 1, dy = 1\<rparr>, \<lparr>x = 2, y = 2, dy = 0\<rparr>] 1 =
     Some \<lparr>x = 3, y = 13 / 12, dy = - 30 / 12\<rparr>"
  using adams3Step_formula [of "[\<lparr>x = 0, y = 0, dy = 1\<rparr>, \<lparr>x = 1, y = 1, dy = 1\<rparr>, \<lparr>x = 2, y = 2, dy = 0\<rparr>]"
      test_solver 1]
  by (simp add: Let_def system_def test_ode_def test_solver_def new_ODESolver_def)

subsection \<open>C5: the bootstrap of the Adams solver\<close>

text \<open>
  Claim C5 says that for every call \<^verbatim>\<open>solveAdams3(h, x_end)\<close> the returned trajectory has at
  least three elements, the initial condition and two RK4 steps, as an RK4 trajectory
  begins, and that this bootstrap is produced unconditionally, also when
  \<open>x_end < x0 + 2 h\<close>.

  Counterexample to C5. The bootstrap is pushed after the capacity request. With \<open>x0 = 0\<close>,
  \<open>h = 1\<close> and \<open>x_end = - 5\<close> (a call with \<open>x_end < x0 + 2 h\<close>) the quotient of the request is
  \<open>- 5\<close>, its conversion to \<^verbatim>\<open>size_t\<close> is undefined, and the call ends there: no bootstrap is
  produced and no trajectory is returned.
\<close>

theorem solveAdams3_bootstrap_counterexample:
  "(- 5 :: real) < 0 + 2 * 1 \<and>
   reserve_request (x (m_initial_state (new_ODESolver test_ode 0 0 1))) 1 (- 5) = None \<and>
   solveAdams3 (new_ODESolver test_ode 0 0 1) 1 (- 5) = Some (Inl CapacityUndefined)"
  by (simp add: solveAdams3_def reserve_request_def new_ODESolver_def)

text \<open>
  Claim C5 as amended. For every call \<^verbatim>\<open>solveAdams3(h, x_end)\<close> whose capacity request is
  defined (\<open>h \<noteq> 0\<close> and \<open>(x_end - x0) / h > - 1\<close>) the vector holds the initial condition,
  \<^verbatim>\<open>rk4Step\<close> of it and \<^verbatim>\<open>rk4Step\<close> of that when the \<^verbatim>\<open>while\<close> loop is entered, with no further
  condition on \<open>x_end\<close>, so also when \<open>x_end < x0 + 2 h\<close>. Every trajectory that a call
  returns has at least three elements and starts with these three, which are the first
  three elements of every RK4 trajectory with the same step that has three elements.
  For \<open>h > 0\<close> and \<open>x_end > x0 - h\<close> the call does return a trajectory.
\<close>

theorem solveAdams3_bootstrap_when_defined:
  "(\<forall>capacity. reserve_request (x (m_initial_state S)) h x_end = Some capacity \<longrightarrow>
      solveAdams3 S h x_end =
        map_option Inr (solveAdams3_loop S h x_end
          [m_initial_state S, rk4Step S (m_initial_state S) h,
           rk4Step S (rk4Step S (m_initial_state S) h) h])) \<and>
   (0 < h \<and> x (m_initial_state S) - h < x_end \<longrightarrow>
      (\<exists>traj. solveAdams3 S h x_end = Some (Inr traj))) \<and>
   (\<forall>traj. solveAdams3 S h x_end = Some (Inr traj) \<longrightarrow>
      3 \<le> length traj \<and>
      take 3 traj = [m_initial_state S, rk4Step S (m_initial_state S) h,
                     rk4Step S (rk4Step S (m_initial_state S) h) h] \<and>
      (\<forall>x_end' rk4_traj. solveRK4 S h x_end' = Some (Inr rk4_traj) \<and> 3 \<le> length rk4_traj \<longrightarrow>
         take 3 rk4_traj = take 3 traj))"
proof (intro conjI impI allI)
  fix capacity
  assume "reserve_request (x (m_initial_state S)) h x_end = Some capacity"
  then show "solveAdams3 S h x_end =
        map_option Inr (solveAdams3_loop S h x_end
          [m_initial_state S, rk4Step S (m_initial_state S) h,
           rk4Step S (rk4Step S (m_initial_state S) h) h])"
    by (simp add: solveAdams3_def solveAdams3_bootstrap_eq)
next
  assume "0 < h \<and> x (m_initial_state S) - h < x_end"
  then have "0 < h" and "x (m_initial_state S) - h < x_end" by simp_all
  from solveAdams3_total [OF this] show "\<exists>traj. solveAdams3 S h x_end = Some (Inr traj)"
    by blast
next
  fix traj assume t: "solveAdams3 S h x_end = Some (Inr traj)"
  from solveAdams3_shape [OF t] obtain ext
    where e: "traj = [m_initial_state S, rk4Step S (m_initial_state S) h,
                     rk4Step S (rk4Step S (m_initial_state S) h) h] @ ext" by blast
  show "3 \<le> length traj" by (simp add: e)
  show t3: "take 3 traj = [m_initial_state S, rk4Step S (m_initial_state S) h,
                     rk4Step S (rk4Step S (m_initial_state S) h) h]" by (simp add: e)
  fix x_end' rk4_traj
  assume r: "solveRK4 S h x_end' = Some (Inr rk4_traj) \<and> 3 \<le> length rk4_traj"
  from solveRK4_shape [of S h x_end' rk4_traj] r obtain n
    where n: "rk4_traj = m_initial_state S # iterate_states (\<lambda>s. rk4Step S s h) n (m_initial_state S)"
    by blast
  with r have "2 \<le> n" by simp
  from take3_iterate_states [OF this] show "take 3 rk4_traj = take 3 traj"
    unfolding t3 n by simp
qed

text \<open>
  An instance with \<open>x_end = 1 / 2 < x0 + 2 h = 2\<close>, compared with the RK4 trajectory up to
  \<open>x_end = 3\<close>.
\<close>

theorem solveAdams3_bootstrap_when_defined_witness:
  "reserve_request (x (m_initial_state test_solver)) 1 (1 / 2) = Some 1 \<and>
   ((0::real) < 1 \<and> x (m_initial_state test_solver) - 1 < 1 / 2) \<and>
   solveAdams3 test_solver 1 (1 / 2) =
     Some (Inr [\<lparr>x = 0, y = 0, dy = 1\<rparr>, \<lparr>x = 1, y = 5 / 6, dy = 13 / 24\<rparr>,
      \<lparr>x = 2, y = 65 / 72, dy = - 77 / 192\<rparr>]) \<and>
   solveRK4 test_solver 1 3 =
     Some (Inr [\<lparr>x = 0, y = 0, dy = 1\<rparr>, \<lparr>x = 1, y = 5 / 6, dy = 13 / 24\<rparr>,
      \<lparr>x = 2, y = 65 / 72, dy = - 77 / 192\<rparr>,
      \<lparr>x = 3, y = 535 / 3456, dy = - 13403 / 13824\<rparr>]) \<and>
   solveAdams3 test_solver 1 (1 / 2) =
     map_option Inr (solveAdams3_loop test_solver 1 (1 / 2)
       [m_initial_state test_solver, rk4Step test_solver (m_initial_state test_solver) 1,
        rk4Step test_solver (rk4Step test_solver (m_initial_state test_solver) 1) 1]) \<and>
   3 \<le> length
     [\<lparr>x = 0, y = 0, dy = 1\<rparr>, \<lparr>x = 1, y = 5 / 6, dy = 13 / 24\<rparr>,
      \<lparr>x = 2, y = 65 / 72, dy = - 77 / 192\<rparr>] \<and>
   take 3
     [\<lparr>x = 0, y = 0, dy = 1\<rparr>, \<lparr>x = 1, y = 5 / 6, dy = 13 / 24\<rparr>,
      \<lparr>x = 2, y = 65 / 72, dy = - 77 / 192\<rparr>] =
     [m_initial_state test_solver, rk4Step test_solver (m_initial_state test_solver) 1,
      rk4Step test_solver (rk4Step test_solver (m_initial_state test_solver) 1) 1] \<and>
   take 3
     [\<lparr>x = 0, y = 0, dy = 1\<rparr>, \<lparr>x = 1, y = 5 / 6, dy = 13 / 24\<rparr>,
      \<lparr>x = 2, y = 65 / 72, dy = - 77 / 192\<rparr>,
      \<lparr>x = 3, y = 535 / 3456, dy = - 13403 / 13824\<rparr>] =
   take 3
     [\<lparr>x = 0, y = 0, dy = 1\<rparr>, \<lparr>x = 1, y = 5 / 6, dy = 13 / 24\<rparr>,
      \<lparr>x = 2, y = 65 / 72, dy = - 77 / 192\<rparr>]"
proof -
  have h0: "reserve_request (x (m_initial_state test_solver)) 1 (1 / 2) = Some 1"
    by (simp add: reserve_request_def test_solver_def new_ODESolver_def)
  have h1: "(0::real) < 1 \<and> x (m_initial_state test_solver) - 1 < 1 / 2"
    by (simp add: test_solver_def new_ODESolver_def)
  have h2: "solveAdams3 test_solver 1 (1 / 2) =
     Some (Inr [\<lparr>x = 0, y = 0, dy = 1\<rparr>, \<lparr>x = 1, y = 5 / 6, dy = 13 / 24\<rparr>,
      \<lparr>x = 2, y = 65 / 72, dy = - 77 / 192\<rparr>])"
    by (simp add: solveAdams3_def solveAdams3_bootstrap_eq solveAdams3_loop.simps
        test_solver_def new_ODESolver_def rk4Step_def system_def test_ode_def Let_def
        reserve_request_def)
  have h3: "solveRK4 test_solver 1 3 =
     Some (Inr [\<lparr>x = 0, y = 0, dy = 1\<rparr>, \<lparr>x = 1, y = 5 / 6, dy = 13 / 24\<rparr>,
      \<lparr>x = 2, y = 65 / 72, dy = - 77 / 192\<rparr>,
      \<lparr>x = 3, y = 535 / 3456, dy = - 13403 / 13824\<rparr>])"
    by (simp add: solveRK4_def solveRK4_loop.simps test_solver_def new_ODESolver_def
        rk4Step_def system_def test_ode_def Let_def reserve_request_def)
  have h4: "3 \<le> length
     [\<lparr>x = 0, y = 0, dy = 1\<rparr>, \<lparr>x = 1, y = 5 / 6, dy = 13 / 24\<rparr>,
      \<lparr>x = 2, y = 65 / 72, dy = - 77 / 192\<rparr>,
      \<lparr>x = 3, y = 535 / 3456, dy = - 13403 / 13824\<rparr>]"
    by simp
  note inst = solveAdams3_bootstrap_when_defined [of test_solver 1 "1 / 2"]
  note b = inst [THEN conjunct1, rule_format, OF h0]
  note t = inst [THEN conjunct2, THEN conjunct2, rule_format, OF h2]
  note a = t [THEN conjunct1]
  note b3 = t [THEN conjunct2, THEN conjunct1]
  note c = t [THEN conjunct2, THEN conjunct2, rule_format, OF conjI [OF h3 h4]]
  show ?thesis
    by (rule conjI [OF h0 conjI [OF h1 conjI [OF h2 conjI [OF h3 conjI [OF b
          conjI [OF a conjI [OF b3 c]]]]]]])
qed

subsection \<open>C6: the Runge error estimate\<close>

text \<open>
  Claim C6. For all trajectories \<open>fine\<close> and \<open>coarse\<close> and every order \<open>p\<close>,
  \<^verbatim>\<open>calculateRungeError(fine, coarse, p)\<close> is the sequence of the values
  \<open>|fine[2 i].y - coarse[i].y| / (1 - 2\<^sup>-\<^sup>p)\<close> for \<open>i\<close> from \<open>0\<close>, of length
  \<open>min (\<lceil>len(fine) / 2\<rceil>) (len(coarse))\<close>: mismatched lengths are no failure, the result is
  cut to the shorter aligned prefix. (All reads are inside the vectors: \<open>fine[i]\<close> is read
  under \<open>i < fine.size()\<close> and \<open>coarse[coarse_idx]\<close> after the test of \<open>coarse_idx\<close>. At
  \<open>p = 0\<close> the divisor is zero; the quotient is then the same expression on both sides.)
\<close>

theorem calculateRungeError_formula:
  "calculateRungeError fine coarse p =
     map (\<lambda>i. \<bar>y (fine ! (2 * i)) - y (coarse ! i)\<bar> / (1 - 2 powr (- p)))
         [0..<min (nat \<lceil>real (length fine) / 2\<rceil>) (length coarse)] \<and>
   length (calculateRungeError fine coarse p) =
     min (nat \<lceil>real (length fine) / 2\<rceil>) (length coarse)"
  using runge_loop [of fine coarse p 0 "[]"]
  by (simp add: calculateRungeError_def ceiling_half)

text \<open>
  An instance with four fine and three coarse samples and \<open>p = 4\<close>: two values, the third
  coarse sample has no partner.
\<close>

theorem calculateRungeError_formula_witness:
  "calculateRungeError
     [\<lparr>x = 0, y = 1, dy = 0\<rparr>, \<lparr>x = 1, y = 2, dy = 0\<rparr>, \<lparr>x = 2, y = 5, dy = 0\<rparr>, \<lparr>x = 3, y = 7, dy = 0\<rparr>]
     [\<lparr>x = 0, y = 1, dy = 0\<rparr>, \<lparr>x = 2, y = 4, dy = 0\<rparr>, \<lparr>x = 4, y = 4, dy = 0\<rparr>] 4 = [0, 16 / 15]"
  using calculateRungeError_formula [of
     "[\<lparr>x = 0, y = 1, dy = 0\<rparr>, \<lparr>x = 1, y = 2, dy = 0\<rparr>, \<lparr>x = 2, y = 5, dy = 0\<rparr>, \<lparr>x = 3, y = 7, dy = 0\<rparr>]"
     "[\<lparr>x = 0, y = 1, dy = 0\<rparr>, \<lparr>x = 2, y = 4, dy = 0\<rparr>, \<lparr>x = 4, y = 4, dy = 0\<rparr>]" 4]
  by (simp add: powr_neg_numeral upt_conv_Cons)

subsection \<open>C7: the Euler step\<close>

text \<open>
  Claim C7. For every state \<open>current\<close> and step \<open>h\<close>, \<^verbatim>\<open>eulerStep(current, h)\<close> is the state
  with \<open>x = current.x + h\<close>, \<open>y = current.y + h dy\<close> and \<open>dy = current.dy + h d2y\<close>, where
  \<open>(dy, d2y) = system(current) = (current.dy, f(current.x, current.y, current.dy))\<close>.
\<close>

theorem eulerStep_formula:
  "system S current = (dy current, m_ode S (x current) (y current) (dy current)) \<and>
   eulerStep S current h =
     \<lparr>x = x current + h,
      y = y current + h * fst (system S current),
      dy = dy current + h * snd (system S current)\<rparr>"
  by (simp add: eulerStep_def system_def)

theorem eulerStep_formula_witness:
  "eulerStep test_solver \<lparr>x = 0, y = 0, dy = 1\<rparr> 1 = \<lparr>x = 1, y = 1, dy = 1\<rparr>"
  using eulerStep_formula [of test_solver "\<lparr>x = 0, y = 0, dy = 1\<rparr>" 1]
  by (simp add: system_def test_ode_def test_solver_def new_ODESolver_def)

subsection \<open>C8: the grid of abscissae\<close>

text \<open>
  Claim C8. Every trajectory returned by \<^verbatim>\<open>solveEuler\<close>, \<^verbatim>\<open>solveRK4\<close> or \<^verbatim>\<open>solveAdams3\<close> of a
  solver constructed from \<open>(x0, y0, dy0)\<close> starts with exactly that initial condition, each
  further element's abscissa is its predecessor's plus \<open>h\<close>, and so for \<open>h > 0\<close> the
  abscissae increase strictly.
\<close>

theorem trajectory_x_grid:
  assumes "solveEuler S h x_end = Some (Inr traj) \<or> solveRK4 S h x_end = Some (Inr traj) \<or>
           solveAdams3 S h x_end = Some (Inr traj)"
    and "S = new_ODESolver ode x0 y0 dy0"
  shows "traj \<noteq> [] \<and> hd traj = \<lparr>x = x0, y = y0, dy = dy0\<rparr> \<and>
         (\<forall>i. Suc i < length traj \<longrightarrow> x (traj ! Suc i) = x (traj ! i) + h) \<and>
         (0 < h \<longrightarrow> (\<forall>i j. i < j \<and> j < length traj \<longrightarrow> x (traj ! i) < x (traj ! j)))"
proof -
  have "traj \<noteq> [] \<and> hd traj = m_initial_state S \<and>
        (\<forall>i<length traj. x (traj ! i) = x (m_initial_state S) + real i * h)"
    using assms(1) solveEuler_xs [of S h x_end traj] solveRK4_xs [of S h x_end traj]
      solveAdams3_xs [of S h x_end traj] by fastforce
  then have ne: "traj \<noteq> []" and hd: "hd traj = m_initial_state S"
    and xs: "\<And>i. i < length traj \<Longrightarrow> x (traj ! i) = x (m_initial_state S) + real i * h"
    by simp_all
  from hd assms(2) have "hd traj = \<lparr>x = x0, y = y0, dy = dy0\<rparr>" by (simp add: new_ODESolver_def)
  with ne chain_of_xs [of traj "x (m_initial_state S)" h, OF xs] show ?thesis by blast
qed

theorem trajectory_x_grid_witness:
  "solveEuler test_solver 1 1 = Some (Inr [\<lparr>x = 0, y = 0, dy = 1\<rparr>, \<lparr>x = 1, y = 1, dy = 1\<rparr>]) \<and>
   [\<lparr>x = 0, y = 0, dy = 1\<rparr>, \<lparr>x = 1, y = 1, dy = 1\<rparr>] \<noteq> [] \<and>
   hd [\<lparr>x = 0, y = 0, dy = 1\<rparr>, \<lparr>x = 1, y = 1, dy = 1\<rparr>] = \<lparr>x = 0, y = 0, dy = 1\<rparr> \<and>
   x ([\<lparr>x = 0, y = 0, dy = 1\<rparr>, \<lparr>x = 1, y = 1, dy = 1\<rparr>] ! Suc 0) = x ([\<lparr>x = 0, y = 0, dy = 1\<rparr>, \<lparr>x = 1, y = 1, dy = 1\<rparr>] ! 0) + 1 \<and>
   x ([\<lparr>x = 0, y = 0, dy = 1\<rparr>, \<lparr>x = 1, y = 1, dy = 1\<rparr>] ! 0) < x ([\<lparr>x = 0, y = 0, dy = 1\<rparr>, \<lparr>x = 1, y = 1, dy = 1\<rparr>] ! 1)"
proof -
  have h0: "(0::real) < 1" by simp
  have h1: "solveEuler test_solver 1 1 = Some (Inr [\<lparr>x = 0, y = 0, dy = 1\<rparr>, \<lparr>x = 1, y = 1, dy = 1\<rparr>])"
    by (simp add: solveEuler_def solveEuler_loop.simps eulerStep_def system_def test_ode_def
        test_solver_def new_ODESolver_def Let_def reserve_request_def)
  have l1: "Suc 0 < length [\<lparr>x = 0, y = 0, dy = 1\<rparr>, \<lparr>x = 1, y = 1, dy = 1\<rparr>]" by simp
  have l2: "(0::nat) < 1 \<and> 1 < length [\<lparr>x = 0, y = 0, dy = 1\<rparr>, \<lparr>x = 1, y = 1, dy = 1\<rparr>]" by simp
  note t = trajectory_x_grid [OF disjI1 [OF h1] test_solver_def]
  note a = t [THEN conjunct1]
  note b = t [THEN conjunct2, THEN conjunct1]
  note c = t [THEN conjunct2, THEN conjunct2, THEN conjunct1, rule_format, OF l1]
  note d = t [THEN conjunct2, THEN conjunct2, THEN conjunct2, rule_format, OF h0 l2]
  show ?thesis
    by (rule conjI [OF h1 conjI [OF a conjI [OF b conjI [OF c d]]]])
qed

subsection \<open>C9: repeated calls\<close>




subsection \<open>C10: termination\<close>

text \<open>
  Claim C10 says that for every \<open>h > 0\<close> and every \<open>x_end\<close> each solve method terminates,
  every round of its loop appending a state whose abscissa is the last one plus \<open>h\<close>, so that
  the guard fails after at most \<open>\<lceil>(x_end - h / 2 - x0) / h\<rceil>\<close> rounds.

  Counterexample to C10. The stated bound is negative once \<open>x_end \<le> x0 - h / 2\<close>, while the
  number of rounds is then zero. With \<open>x0 = 0\<close>, \<open>h = 1\<close> and \<open>x_end = - 3 / 4\<close>,
  \<^verbatim>\<open>solveRK4\<close> returns the initial condition alone after \<open>0\<close> rounds, and
  \<open>\<lceil>(- 3 / 4 - 1 / 2 - 0) / 1\<rceil> = - 1\<close>. (The capacity request of this call is \<open>1\<close>.) Further
  down, at \<open>x_end = - 5\<close>, the capacity request is undefined and the call ends there: its
  loop is not reached and no trajectory is returned.
\<close>

theorem iteration_bound_counterexample:
  "(0::real) < 1 \<and>
   solveRK4 (new_ODESolver test_ode 0 0 1) 1 (- 3 / 4) = Some (Inr [\<lparr>x = 0, y = 0, dy = 1\<rparr>]) \<and>
   \<not> int (length [\<lparr>x = 0, y = 0, dy = 1\<rparr>]) - 1 \<le> \<lceil>(- 3 / 4 - 1 / 2 - 0) / (1::real)\<rceil> \<and>
   solveRK4 (new_ODESolver test_ode 0 0 1) 1 (- 5) = Some (Inl CapacityUndefined)"
  by (simp add: solveRK4_def solveRK4_loop.simps new_ODESolver_def reserve_request_def)

text \<open>
  Claim C10 as amended. For every \<open>h > 0\<close> and every \<open>x_end > x0 - h\<close> (where the capacity
  request is defined) each solve method returns a trajectory, every element's abscissa is
  its predecessor's plus \<open>h\<close>, and the number of rounds of the \<^verbatim>\<open>while\<close> loop (the length of
  the trajectory less the \<open>1\<close>, for \<^verbatim>\<open>solveAdams3\<close> \<open>3\<close>, elements present before the loop) is
  at most \<open>max 0 \<lceil>(x_end - h / 2 - x0) / h\<rceil>\<close>. Nothing is stated for \<open>x_end \<le> x0 - h\<close>.
\<close>

theorem solve_terminates:
  assumes "0 < h" and "x (m_initial_state S) - h < x_end"
  shows "(\<exists>traj. solveEuler S h x_end = Some (Inr traj) \<and>
            (\<forall>i. Suc i < length traj \<longrightarrow> x (traj ! Suc i) = x (traj ! i) + h) \<and>
            int (length traj) - 1 \<le> max 0 \<lceil>(x_end - h / 2 - x (m_initial_state S)) / h\<rceil>) \<and>
         (\<exists>traj. solveRK4 S h x_end = Some (Inr traj) \<and>
            (\<forall>i. Suc i < length traj \<longrightarrow> x (traj ! Suc i) = x (traj ! i) + h) \<and>
            int (length traj) - 1 \<le> max 0 \<lceil>(x_end - h / 2 - x (m_initial_state S)) / h\<rceil>) \<and>
         (\<exists>traj. solveAdams3 S h x_end = Some (Inr traj) \<and>
            (\<forall>i. Suc i < length traj \<longrightarrow> x (traj ! Suc i) = x (traj ! i) + h) \<and>
            int (length traj) - 3 \<le> max 0 \<lceil>(x_end - h / 2 - x (m_initial_state S)) / h\<rceil>)"
proof (intro conjI)
  let ?c = "x (m_initial_state S)"
  let ?B = "max 0 \<lceil>(x_end - h / 2 - ?c) / h\<rceil>"
  show "\<exists>traj. solveEuler S h x_end = Some (Inr traj) \<and>
            (\<forall>i. Suc i < length traj \<longrightarrow> x (traj ! Suc i) = x (traj ! i) + h) \<and>
            int (length traj) - 1 \<le> ?B"
  proof -
    from solveEuler_total [OF assms] obtain traj
      where t: "solveEuler S h x_end = Some (Inr traj)"
        and len: "length traj = Suc (loop_count h x_end ?c)" by blast
    from len have "int (length traj) - 1 \<le> ?B" by (simp add: loop_count_int [symmetric])
    with t chain_of_xs(1) [of traj ?c h, OF solveEuler_xs(3) [OF t]] show ?thesis by blast
  qed
  show "\<exists>traj. solveRK4 S h x_end = Some (Inr traj) \<and>
            (\<forall>i. Suc i < length traj \<longrightarrow> x (traj ! Suc i) = x (traj ! i) + h) \<and>
            int (length traj) - 1 \<le> ?B"
  proof -
    from solveRK4_total [OF assms] obtain traj
      where t: "solveRK4 S h x_end = Some (Inr traj)"
        and len: "length traj = Suc (loop_count h x_end ?c)" by blast
    from len have "int (length traj) - 1 \<le> ?B" by (simp add: loop_count_int [symmetric])
    with t chain_of_xs(1) [of traj ?c h, OF solveRK4_xs(3) [OF t]] show ?thesis by blast
  qed
  show "\<exists>traj. solveAdams3 S h x_end = Some (Inr traj) \<and>
            (\<forall>i. Suc i < length traj \<longrightarrow> x (traj ! Suc i) = x (traj ! i) + h) \<and>
            int (length traj) - 3 \<le> ?B"
  proof -
    from solveAdams3_total [OF assms] obtain traj
      where t: "solveAdams3 S h x_end = Some (Inr traj)"
        and len: "length traj = Suc (2 + loop_count h x_end (?c + real 2 * h))" by blast
    from len have "int (length traj) - 3 = int (loop_count h x_end (?c + real 2 * h))" by simp
    also have "\<dots> \<le> int (loop_count h x_end ?c)"
      using loop_count_mono [OF assms(1), of x_end ?c 2] by simp
    finally have "int (length traj) - 3 \<le> ?B" by (simp add: loop_count_int [symmetric])
    with t chain_of_xs(1) [of traj ?c h, OF solveAdams3_xs(3) [OF t]] show ?thesis by blast
  qed
qed

theorem solve_terminates_witness:
  "(0::real) < 1 \<and> x (m_initial_state test_solver) - 1 < 2 \<and>
   ((\<exists>traj. solveEuler test_solver (1::real) 2 = Some (Inr traj) \<and>
            (\<forall>i. Suc i < length traj \<longrightarrow> x (traj ! Suc i) = x (traj ! i) + (1::real)) \<and>
            int (length traj) - 1 \<le> max 0 \<lceil>(2 - (1::real) / 2 - x (m_initial_state test_solver)) / (1::real)\<rceil>) \<and>
         (\<exists>traj. solveRK4 test_solver (1::real) 2 = Some (Inr traj) \<and>
            (\<forall>i. Suc i < length traj \<longrightarrow> x (traj ! Suc i) = x (traj ! i) + (1::real)) \<and>
            int (length traj) - 1 \<le> max 0 \<lceil>(2 - (1::real) / 2 - x (m_initial_state test_solver)) / (1::real)\<rceil>) \<and>
         (\<exists>traj. solveAdams3 test_solver (1::real) 2 = Some (Inr traj) \<and>
            (\<forall>i. Suc i < length traj \<longrightarrow> x (traj ! Suc i) = x (traj ! i) + (1::real)) \<and>
            int (length traj) - 3 \<le> max 0 \<lceil>(2 - (1::real) / 2 - x (m_initial_state test_solver)) / (1::real)\<rceil>))"
proof -
  have h1: "(0::real) < 1" by simp
  have h2: "x (m_initial_state test_solver) - 1 < 2"
    by (simp add: test_solver_def new_ODESolver_def)
  show ?thesis
    by (rule conjI [OF h1 conjI [OF h2 solve_terminates [OF h1 h2]]])
qed

end
